theory Spec2Isabelle
  imports Main "HOL-Library.Sublist"
begin

section \<open>Errors raised by the two scripts\<close>

text \<open>
  Every \<^verbatim>\<open>raise\<close> of \<^verbatim>\<open>load_excel.py\<close> and \<^verbatim>\<open>extract_from_idmc.py\<close> is a value of
  this type. \<open>Exception msg\<close> carries the message where the source builds it from
  strings only; \<open>LoginException\<close> stands for the \<^verbatim>\<open>Exception\<close> of \<^verbatim>\<open>login\<close>, whose
  message embeds the printed form of the whole response dictionary.
\<close>

datatype error =
    FileNotFoundError
  | KeyError string
  | NotImplementedError
  | AttributeError
  | OSError
  | IsADirectoryError
  | HTTPError
  | LoginException
  | Exception string

section \<open>Schema inference (\<^verbatim>\<open>load_excel.py\<close>, lines 17-72)\<close>

text \<open>
  A pandas column is a dtype name together with its cells. \<^verbatim>\<open>isnull()\<close> is true of
  \<^verbatim>\<open>None\<close>, \<^verbatim>\<open>NaN\<close> and \<^verbatim>\<open>NaT\<close>. The payload of a float cell is kept as a
  mantissa and an exponent: no claim depends on float arithmetic.
\<close>

datatype cell =
    NoneV
  | NaN
  | NaT
  | IntV int
  | FloatV int int
  | StrV string
  | BoolV bool
  | TimestampV int

fun isnull :: "cell \<Rightarrow> bool" where
  "isnull NoneV = True"
| "isnull NaN = True"
| "isnull NaT = True"
| "isnull _ = False"

record series =
  dtype :: string
  vals :: "cell list"

definition isnull_any :: "series \<Rightarrow> bool" where
  "isnull_any col_series = list_ex isnull (vals col_series)"

text \<open>\<^verbatim>\<open>d.get(k, default)\<close> of a Python dictionary.\<close>

definition dict_get :: "('k \<rightharpoonup> 'v) \<Rightarrow> 'k \<Rightarrow> 'v \<Rightarrow> 'v" where
  "dict_get d k dflt = (case d k of None \<Rightarrow> dflt | Some v \<Rightarrow> v)"

definition sqlserver_types :: "string \<rightharpoonup> string" where
  "sqlserver_types = map_of
     [(''int64'', ''BIGINT''),
      (''float64'', ''FLOAT''),
      (''object'', ''VARCHAR(4000)''),
      (''datetime64[ns]'', ''DATETIME''),
      (''bool'', ''BIT'')]"

definition oracle_types :: "string \<rightharpoonup> string" where
  "oracle_types = map_of
     [(''int64'', ''NUMBER''),
      (''float64'', ''FLOAT''),
      (''object'', ''VARCHAR2(4000)''),
      (''datetime64[ns]'', ''DATE''),
      (''bool'', ''NUMBER(1)'')]"

definition snowflake_types :: "string \<rightharpoonup> string" where
  "snowflake_types = map_of
     [(''int64'', ''NUMBER''),
      (''float64'', ''FLOAT''),
      (''object'', ''VARCHAR''),
      (''datetime64[ns]'', ''TIMESTAMP_NTZ''),
      (''bool'', ''BOOLEAN'')]"

definition databricks_types :: "string \<rightharpoonup> string" where
  "databricks_types = map_of
     [(''int64'', ''BIGINT''),
      (''float64'', ''DOUBLE''),
      (''object'', ''STRING''),
      (''datetime64[ns]'', ''TIMESTAMP''),
      (''bool'', ''BOOLEAN'')]"

definition mysql_types :: "string \<rightharpoonup> string" where
  "mysql_types = map_of
     [(''int64'', ''BIGINT''),
      (''float64'', ''DOUBLE''),
      (''object'', ''VARCHAR(255)''),
      (''datetime64[ns]'', ''DATETIME''),
      (''bool'', ''TINYINT(1)'')]"

definition postgres_types :: "string \<rightharpoonup> string" where
  "postgres_types = map_of
     [(''int64'', ''BIGINT''),
      (''float64'', ''DOUBLE PRECISION''),
      (''object'', ''TEXT''),
      (''datetime64[ns]'', ''TIMESTAMP''),
      (''bool'', ''BOOLEAN'')]"

definition SQL_TYPE_MAPPING :: "string \<rightharpoonup> (string \<rightharpoonup> string)" where
  "SQL_TYPE_MAPPING = map_of
     [(''sqlserver'', sqlserver_types),
      (''oracle'', oracle_types),
      (''snowflake'', snowflake_types),
      (''databricks'', databricks_types),
      (''mysql'', mysql_types),
      (''postgres'', postgres_types)]"

text \<open>
  \<^verbatim>\<open>infer_sql_type\<close>. The test \<^verbatim>\<open>if not sql_type\<close> is true of a missing key
  (\<^verbatim>\<open>None\<close>) and of an empty string.
\<close>

definition infer_sql_type :: "series \<Rightarrow> (string \<rightharpoonup> string) \<Rightarrow> string" where
  "infer_sql_type col_series sql_types_map =
     (if isnull_any col_series then dict_get sql_types_map ''object'' ''VARCHAR(255)''
      else (case sql_types_map (dtype col_series) of
              None \<Rightarrow> dict_get sql_types_map ''object'' ''VARCHAR(255)''
            | Some sql_type \<Rightarrow>
                if sql_type = [] then dict_get sql_types_map ''object'' ''VARCHAR(255)''
                else sql_type))"

section \<open>Input resolution (\<^verbatim>\<open>load_excel.py\<close>, lines 275-294)\<close>

text \<open>
  The file system as \<^verbatim>\<open>os.path\<close> reads it: a path names nothing, a regular file or a
  directory, and what exists has a modification time. Modification times are compared
  only, so any linear order stands for them.
\<close>

datatype 't node = File 't | Dir 't

type_synonym 't filesystem = "string \<rightharpoonup> 't node"

definition isfile :: "'t filesystem \<Rightarrow> string \<Rightarrow> bool" where
  "isfile fs p = (case fs p of Some (File _) \<Rightarrow> True | _ \<Rightarrow> False)"

definition getmtime :: "'t filesystem \<Rightarrow> string \<Rightarrow> error + 't" where
  "getmtime fs p =
     (case fs p of None \<Rightarrow> Inl OSError | Some (File t) \<Rightarrow> Inr t | Some (Dir t) \<Rightarrow> Inr t)"

definition find_input_file :: "('t::linorder) filesystem \<Rightarrow> string \<Rightarrow> error + string" where
  "find_input_file fs base_path =
     (let zip_path = base_path @ ''.zip'';
          xlsx_path = base_path @ ''.xlsx'';
          zip_exists = isfile fs zip_path;
          xlsx_exists = isfile fs xlsx_path
      in if zip_exists \<and> xlsx_exists then
           (case getmtime fs zip_path of
              Inl e \<Rightarrow> Inl e
            | Inr zip_mtime \<Rightarrow>
                (case getmtime fs xlsx_path of
                   Inl e \<Rightarrow> Inl e
                 | Inr xlsx_mtime \<Rightarrow>
                     if zip_mtime > xlsx_mtime then Inr zip_path else Inr xlsx_path))
         else if zip_exists then Inr zip_path
         else if xlsx_exists then Inr xlsx_path
         else Inl FileNotFoundError)"

section \<open>Catalog export: responses of the remote service\<close>

text \<open>
  The scripts reach the catalog service through \<^verbatim>\<open>requests\<close>. What the service answers
  is an input of the model: a response has a transport status (\<^verbatim>\<open>raise_for_status()\<close>
  raises when it is not a success), headers, a JSON object and a body delivered in
  chunks. JSON numbers are integers here; no claim reads a fractional number.
\<close>

datatype json =
    JNull
  | JBool bool
  | JInt int
  | JStr string
  | JArr "json list"
  | JObj "(string \<times> json) list"

record http_response =
  ok :: bool
  headers :: "string \<rightharpoonup> string"
  json_data :: "string \<rightharpoonup> json"
  chunks :: "string list"

text \<open>
  Python truth of the value of \<^verbatim>\<open>data.get(key)\<close>: a missing key gives \<^verbatim>\<open>None\<close>, which
  is false, as are \<^verbatim>\<open>null\<close>, \<^verbatim>\<open>false\<close>, \<^verbatim>\<open>0\<close> and the empty string, list and object.
\<close>

fun truthy :: "json option \<Rightarrow> bool" where
  "truthy None = False"
| "truthy (Some JNull) = False"
| "truthy (Some (JBool b)) = b"
| "truthy (Some (JInt n)) = (n \<noteq> 0)"
| "truthy (Some (JStr s)) = (s \<noteq> [])"
| "truthy (Some (JArr xs)) = (xs \<noteq> [])"
| "truthy (Some (JObj kvs)) = (kvs \<noteq> [])"

subsection \<open>\<^verbatim>\<open>login\<close> (\<^verbatim>\<open>extract_from_idmc.py\<close>, lines 15-35)\<close>

text \<open>
  \<^verbatim>\<open>login\<close> applied to the response of the Login request. The returned pair holds the
  two values as the response carries them.
\<close>

definition login :: "http_response \<Rightarrow> error + (json \<times> json)" where
  "login response =
     (if \<not> ok response then Inl HTTPError
      else
        let session_id = json_data response ''sessionId'';
            org_id = json_data response ''currentOrgId''
        in if \<not> truthy session_id \<or> \<not> truthy org_id then Inl LoginException
           else (case (session_id, org_id) of
                   (Some s, Some g) \<Rightarrow> Inr (s, g)
                 | _ \<Rightarrow> Inl LoginException))"

subsection \<open>\<^verbatim>\<open>check_job_status\<close> (\<^verbatim>\<open>extract_from_idmc.py\<close>, lines 81-101)\<close>

text \<open>
  The loop \<^verbatim>\<open>while True\<close> polls until a terminal status. The answers of the service to
  the successive polls are a script: a poll either fails at the transport level or
  yields the \<^verbatim>\<open>status\<close> field of the body (\<open>None\<close> when the field is absent). The model
  returns the outcome together with the list of sleeps performed, each with its
  duration. The outcome \<open>None\<close> means that the script ran out while the loop was still
  waiting: the loop itself has no bound.
\<close>

datatype reply = HttpFailure | Status "string option"

fun check_job_status ::
  "nat \<Rightarrow> reply list \<Rightarrow> nat list \<Rightarrow> (error + unit) option \<times> nat list" where
  "check_job_status poll_interval [] slept = (None, slept)"
| "check_job_status poll_interval (HttpFailure # rs) slept = (Some (Inl HTTPError), slept)"
| "check_job_status poll_interval (Status status # rs) slept =
     (case status of
        None \<Rightarrow> check_job_status poll_interval rs (slept @ [poll_interval])
      | Some s \<Rightarrow>
          if s = ''COMPLETED'' then (Some (Inr ()), slept)
          else if s \<in> set [''FAILED'', ''CANCELED'', ''ERROR'']
          then (Some (Inl (Exception (''Job ended with status: '' @ s))), slept)
          else check_job_status poll_interval rs (slept @ [poll_interval]))"

text \<open>
  The statuses on which the loop sleeps and polls again: every value of the
  \<^verbatim>\<open>status\<close> field, or its absence, other than the four terminal ones.
\<close>

definition keeps_polling :: "string option \<Rightarrow> bool" where
  "keeps_polling status =
     (status \<notin> {Some ''COMPLETED'', Some ''FAILED'', Some ''CANCELED'', Some ''ERROR''})"

subsection \<open>\<^verbatim>\<open>download_export_file\<close> (\<^verbatim>\<open>extract_from_idmc.py\<close>, lines 104-132)\<close>






section \<open>Spreadsheet load: table provisioning (\<^verbatim>\<open>load_excel.py\<close>, lines 74-251)\<close>

subsection \<open>The string methods behind the table name\<close>

text \<open>
  Strings are lists of 8-bit characters, so the model covers sheet names within
  Latin-1. There, \<^verbatim>\<open>str.isspace\<close> holds of the code points 9 to 13, 28 to 32, 133
  and 160. \<^verbatim>\<open>str.strip()\<close> removes the leading and trailing characters of that
  kind.
\<close>

definition isspace :: "char \<Rightarrow> bool" where
  "isspace c =
     (let n = (of_char c :: nat)
      in (9 \<le> n \<and> n \<le> 13) \<or> (28 \<le> n \<and> n \<le> 32) \<or> n = 133 \<or> n = 160)"

definition strip :: "string \<Rightarrow> string" where
  "strip s = rev (dropWhile isspace (rev (dropWhile isspace s)))"

text \<open>
  \<^verbatim>\<open>s.replace(old, new)\<close>: the occurrences of \<open>old\<close> are replaced from left to right
  without overlap; an empty \<open>old\<close> matches before every character and at the end.
\<close>

function replace :: "string \<Rightarrow> string \<Rightarrow> string \<Rightarrow> string" where
  "replace old new [] = (if old = [] then new else [])"
| "replace old new (c # cs) =
     (if old = [] then new @ c # replace old new cs
      else if prefix old (c # cs) then new @ replace old new (drop (length old) (c # cs))
      else c # replace old new cs)"
  by pat_completeness auto
termination
  by (relation "measure (\<lambda>(old, new, s). length s)") auto

text \<open>Line 228: \<^verbatim>\<open>table_name = sheet_name.strip().replace(" ", "_")\<close>.\<close>

definition table_name_of :: "string \<Rightarrow> string" where
  "table_name_of sheet_name = replace '' '' ''_'' (strip sheet_name)"

subsection \<open>\<^verbatim>\<open>DBHandler\<close>\<close>

text \<open>
  The fields of \<^verbatim>\<open>DBHandler\<close> that its methods read; \<open>db_type\<close> is stored lower-cased
  by the constructor. The connection is represented by the statements executed on it,
  in order, each with the table name the method was called with: the methods execute
  one statement and commit. Existence queries are reads and are not recorded; failures
  of the database itself are outside the model.
\<close>

record db_handler =
  db_type :: string
  schema :: "string option"
  truncate_table :: bool
  drop_table :: bool
  debug :: bool

datatype stmt =
    DropTable string
  | CreateTable string
  | TruncateTable string
  | InsertInto string

fun stmt_table :: "stmt \<Rightarrow> string" where
  "stmt_table (DropTable t) = t"
| "stmt_table (CreateTable t) = t"
| "stmt_table (TruncateTable t) = t"
| "stmt_table (InsertInto t) = t"

text \<open>
  The state of one call of \<^verbatim>\<open>process_excel_files\<close>: its local set
  \<^verbatim>\<open>processed_tables\<close> and the statements executed so far.
\<close>

record load_state =
  processed_tables :: "string set"
  executed :: "stmt list"

text \<open>
  \<^verbatim>\<open>table_exists\<close>. What the database answers is an input: \<open>reply\<close> says whether the
  query found the table (for \<^verbatim>\<open>databricks\<close>, whether the lower-cased name is among
  the listed tables). The \<^verbatim>\<open>oracle\<close> and \<^verbatim>\<open>snowflake\<close> branches call
  \<^verbatim>\<open>schema.upper()\<close>, which raises when no schema is configured.
\<close>

definition table_exists :: "db_handler \<Rightarrow> string \<Rightarrow> bool \<Rightarrow> error + bool" where
  "table_exists h table_name reply =
     (if db_type h = ''sqlserver'' then Inr reply
      else if db_type h = ''oracle'' then
        (case schema h of None \<Rightarrow> Inl AttributeError | Some _ \<Rightarrow> Inr reply)
      else if db_type h = ''snowflake'' then
        (case schema h of None \<Rightarrow> Inl AttributeError | Some _ \<Rightarrow> Inr reply)
      else if db_type h = ''databricks'' then Inr reply
      else if db_type h = ''mysql'' then Inr reply
      else if db_type h = ''postgres'' then Inr reply
      else Inl NotImplementedError)"

definition drop_table_if_needed :: "db_handler \<Rightarrow> string \<Rightarrow> load_state \<Rightarrow> load_state" where
  "drop_table_if_needed h table_name st =
     (if \<not> drop_table h then st
      else st\<lparr>executed := executed st @ [DropTable table_name]\<rparr>)"

definition create_table :: "db_handler \<Rightarrow> string \<Rightarrow> load_state \<Rightarrow> error + load_state" where
  "create_table h table_name st =
     (case SQL_TYPE_MAPPING (db_type h) of
        None \<Rightarrow> Inl (KeyError (db_type h))
      | Some sql_types \<Rightarrow> Inr (st\<lparr>executed := executed st @ [CreateTable table_name]\<rparr>))"

definition truncate_table_if_needed ::
  "db_handler \<Rightarrow> string \<Rightarrow> load_state \<Rightarrow> error + load_state" where
  "truncate_table_if_needed h table_name st =
     (if drop_table h then Inr st
      else if \<not> truncate_table h then Inr st
      else if db_type h \<in> set [''sqlserver'', ''mysql'', ''postgres'', ''oracle'',
                                ''snowflake'', ''databricks'']
      then Inr (st\<lparr>executed := executed st @ [TruncateTable table_name]\<rparr>)
      else Inl NotImplementedError)"

definition insert_data :: "db_handler \<Rightarrow> string \<Rightarrow> load_state \<Rightarrow> load_state" where
  "insert_data h table_name st = st\<lparr>executed := executed st @ [InsertInto table_name]\<rparr>"

subsection \<open>\<^verbatim>\<open>process_excel_files\<close>\<close>

text \<open>
  A sheet is its name and the answer of the database to the existence query made
  while the sheet is processed. The cells of the sheet decide the column types of
  \<^verbatim>\<open>CREATE TABLE\<close> and the rows inserted, not which statements are executed nor for
  which table, and are left out. \<open>process_sheet\<close> is the body of the loop over the
  sheets (lines 206-251). Every \<^verbatim>\<open>raise\<close> in it comes before the first statement of
  the sheet: the lookup \<^verbatim>\<open>SQL_TYPE_MAPPING[db_handler.db_type]\<close> of line 217 and
  \<^verbatim>\<open>table_exists\<close>.
\<close>

record sheet =
  sheet_name :: string
  table_exists_reply :: bool

definition process_sheet :: "db_handler \<Rightarrow> sheet \<Rightarrow> load_state \<Rightarrow> error + load_state" where
  "process_sheet h sh st =
     (case SQL_TYPE_MAPPING (db_type h) of
        None \<Rightarrow> Inl (KeyError (db_type h))
      | Some sql_types \<Rightarrow>
          let table_name = table_name_of (sheet_name sh)
          in (case table_exists h table_name (table_exists_reply sh) of
                Inl e \<Rightarrow> Inl e
              | Inr found \<Rightarrow>
                  (case
                     (if found then
                        (if drop_table h then
                           (if table_name \<notin> processed_tables st then
                              create_table h table_name
                                ((drop_table_if_needed h table_name st)
                                   \<lparr>processed_tables := insert table_name (processed_tables st)\<rparr>)
                            else Inr st)
                         else
                           (if truncate_table h then
                              (if table_name \<notin> processed_tables st then
                                 (case truncate_table_if_needed h table_name st of
                                    Inl e \<Rightarrow> Inl e
                                  | Inr st1 \<Rightarrow>
                                      Inr (st1\<lparr>processed_tables :=
                                                 insert table_name (processed_tables st1)\<rparr>))
                               else Inr st)
                            else Inr st))
                      else
                        (case create_table h table_name st of
                           Inl e \<Rightarrow> Inl e
                         | Inr st1 \<Rightarrow>
                             Inr (st1\<lparr>processed_tables :=
                                        insert table_name (processed_tables st1)\<rparr>)))
                   of
                     Inl e \<Rightarrow> Inl e
                   | Inr st2 \<Rightarrow> Inr (insert_data h table_name st2))))"

text \<open>
  The loop over the sheets of one workbook and the loop over the files. An exception
  ends the run: the result is the state reached and the exception, if any. A path
  without a workbook (\<^verbatim>\<open>os.path.exists\<close> is false) is skipped.
\<close>

fun process_sheets :: "db_handler \<Rightarrow> sheet list \<Rightarrow> load_state \<Rightarrow> load_state \<times> error option" where
  "process_sheets h [] st = (st, None)"
| "process_sheets h (sh # shs) st =
     (case process_sheet h sh st of
        Inl e \<Rightarrow> (st, Some e)
      | Inr st' \<Rightarrow> process_sheets h shs st')"

fun process_files ::
  "db_handler \<Rightarrow> (string \<rightharpoonup> sheet list) \<Rightarrow> string list \<Rightarrow> load_state \<Rightarrow> load_state \<times> error option" where
  "process_files h workbooks [] st = (st, None)"
| "process_files h workbooks (file_path # paths) st =
     (case workbooks file_path of
        None \<Rightarrow> process_files h workbooks paths st
      | Some sheets \<Rightarrow>
          (case process_sheets h sheets st of
             (st', Some e) \<Rightarrow> (st', Some e)
           | (st', None) \<Rightarrow> process_files h workbooks paths st'))"

definition process_excel_files ::
  "string list \<Rightarrow> db_handler \<Rightarrow> (string \<rightharpoonup> sheet list) \<Rightarrow> load_state \<times> error option" where
  "process_excel_files excel_files h workbooks =
     process_files h workbooks excel_files \<lparr>processed_tables = {}, executed = []\<rparr>"

text \<open>
  The sheets a run meets, in order: those of the workbooks that exist, file by file.
\<close>

definition sheets_met :: "(string \<rightharpoonup> sheet list) \<Rightarrow> string list \<Rightarrow> sheet list" where
  "sheets_met workbooks excel_files =
     concat (map (\<lambda>p. case workbooks p of None \<Rightarrow> [] | Some sheets \<Rightarrow> sheets) excel_files)"

text \<open>
  The wording of the specification for the table name, for comparison with
  \<open>table_name_of\<close>: every whitespace character of the sheet name replaced with an
  underscore.
\<close>

definition spec_normalized_name :: "string \<Rightarrow> string" where
  "spec_normalized_name name =
     map (\<lambda>c. if isspace c then CHR ''_'' else c) name"

section \<open>Properties of schema inference\<close>

lemma dialect_map_cases:
  assumes "SQL_TYPE_MAPPING d = Some m"
  shows "m = sqlserver_types \<or> m = oracle_types \<or> m = snowflake_types \<or>
         m = databricks_types \<or> m = mysql_types \<or> m = postgres_types"
proof -
  have "(d, m) \<in> set [(''sqlserver'', sqlserver_types), (''oracle'', oracle_types),
      (''snowflake'', snowflake_types), (''databricks'', databricks_types),
      (''mysql'', mysql_types), (''postgres'', postgres_types)]"
    using assms unfolding SQL_TYPE_MAPPING_def by (rule map_of_SomeD)
  then show ?thesis by auto
qed

lemma dialect_object_entry:
  assumes "SQL_TYPE_MAPPING d = Some m"
  shows "\<exists>t. m ''object'' = Some t \<and> t \<noteq> []"
  using dialect_map_cases [OF assms]
  by (auto simp: sqlserver_types_def oracle_types_def snowflake_types_def
      databricks_types_def mysql_types_def postgres_types_def)

lemma map_of_value_nonempty:
  assumes "map_of xs k = Some t" and "[] \<notin> snd ` set xs"
  shows "t \<noteq> []"
  using assms by (force dest: map_of_SomeD)

lemma dialect_entries_nonempty:
  assumes "SQL_TYPE_MAPPING d = Some m" and "m k = Some t"
  shows "t \<noteq> []"
proof -
  from dialect_map_cases [OF assms(1)]
  consider "m = sqlserver_types" | "m = oracle_types" | "m = snowflake_types"
    | "m = databricks_types" | "m = mysql_types" | "m = postgres_types"
    by blast
  then show ?thesis
  proof cases
    case 1
    from assms(2) [unfolded 1 sqlserver_types_def] show ?thesis
      by (rule map_of_value_nonempty) simp
  next
    case 2
    from assms(2) [unfolded 2 oracle_types_def] show ?thesis
      by (rule map_of_value_nonempty) simp
  next
    case 3
    from assms(2) [unfolded 3 snowflake_types_def] show ?thesis
      by (rule map_of_value_nonempty) simp
  next
    case 4
    from assms(2) [unfolded 4 databricks_types_def] show ?thesis
      by (rule map_of_value_nonempty) simp
  next
    case 5
    from assms(2) [unfolded 5 mysql_types_def] show ?thesis
      by (rule map_of_value_nonempty) simp
  next
    case 6
    from assms(2) [unfolded 6 postgres_types_def] show ?thesis
      by (rule map_of_value_nonempty) simp
  qed
qed

text \<open>
  Claim C1. A column with at least one null cell gets the \<^verbatim>\<open>'object'\<close> entry of the
  type map it is inferred against, whatever its dtype and its other cells are: the
  result is \<^verbatim>\<open>sql_types_map.get('object', 'VARCHAR(255)')\<close>, hence the map's
  \<^verbatim>\<open>'object'\<close> entry whenever the map has one, as each of the six dialect maps does.
\<close>

theorem infer_sql_type_null_is_text:
  assumes "isnull_any col_series"
  shows "infer_sql_type col_series m = dict_get m ''object'' ''VARCHAR(255)'' \<and>
         (\<forall>t. m ''object'' = Some t \<longrightarrow> infer_sql_type col_series m = t) \<and>
         (\<forall>d. SQL_TYPE_MAPPING d = Some m \<longrightarrow>
              m ''object'' = Some (infer_sql_type col_series m))"
proof -
  have a: "infer_sql_type col_series m = dict_get m ''object'' ''VARCHAR(255)''"
    using assms by (simp add: infer_sql_type_def)
  have b: "\<forall>t. m ''object'' = Some t \<longrightarrow> infer_sql_type col_series m = t"
    using a by (simp add: dict_get_def)
  have c: "\<forall>d. SQL_TYPE_MAPPING d = Some m \<longrightarrow>
              m ''object'' = Some (infer_sql_type col_series m)"
  proof (intro allI impI)
    fix d assume "SQL_TYPE_MAPPING d = Some m"
    from dialect_object_entry [OF this] obtain t where "m ''object'' = Some t" by blast
    with b show "m ''object'' = Some (infer_sql_type col_series m)" by simp
  qed
  from a b c show ?thesis by blast
qed

theorem infer_sql_type_null_is_text_witness:
  "isnull_any \<lparr>dtype = ''float64'', vals = [FloatV 15 (-1), NaN, FloatV 2 0]\<rparr> \<and>
   infer_sql_type \<lparr>dtype = ''float64'', vals = [FloatV 15 (-1), NaN, FloatV 2 0]\<rparr>
     sqlserver_types = ''VARCHAR(4000)'' \<and>
   infer_sql_type \<lparr>dtype = ''float64'', vals = [FloatV 15 (-1), FloatV 2 0]\<rparr>
     sqlserver_types = ''FLOAT''"
proof -
  have h: "isnull_any \<lparr>dtype = ''float64'', vals = [FloatV 15 (-1), NaN, FloatV 2 0]\<rparr>"
    by (simp add: isnull_any_def)
  have o: "sqlserver_types ''object'' = Some ''VARCHAR(4000)''"
    by (simp add: sqlserver_types_def)
  have f: "infer_sql_type \<lparr>dtype = ''float64'', vals = [FloatV 15 (-1), FloatV 2 0]\<rparr>
     sqlserver_types = ''FLOAT''"
    by (simp add: infer_sql_type_def isnull_any_def sqlserver_types_def)
  from infer_sql_type_null_is_text [OF h, of sqlserver_types]
  have "infer_sql_type \<lparr>dtype = ''float64'', vals = [FloatV 15 (-1), NaN, FloatV 2 0]\<rparr>
     sqlserver_types = ''VARCHAR(4000)''"
    using o by blast
  with h f show ?thesis by blast
qed

text \<open>
  Claim C8. \<^verbatim>\<open>infer_sql_type\<close> has no failing path: it is a total function into
  strings. Against each of the six maps of \<^verbatim>\<open>SQL_TYPE_MAPPING\<close>, a column without
  nulls gets the entry of its dtype when the map has one, and the map's \<^verbatim>\<open>'object'\<close>
  entry otherwise; the result is never the empty string. Against any map at all, an
  unmapped dtype gets \<^verbatim>\<open>get('object', 'VARCHAR(255)')\<close>, which is \<^verbatim>\<open>'VARCHAR(255)'\<close>
  when the map has no \<^verbatim>\<open>'object'\<close> entry either.
\<close>

theorem infer_sql_type_total_on_dialects:
  assumes "SQL_TYPE_MAPPING d = Some m" and "\<not> isnull_any col_series"
  shows "infer_sql_type col_series m =
           (case m (dtype col_series) of
              Some t \<Rightarrow> t
            | None \<Rightarrow> dict_get m ''object'' ''VARCHAR(255)'') \<and>
         (m (dtype col_series) = None \<longrightarrow>
            m ''object'' = Some (infer_sql_type col_series m)) \<and>
         infer_sql_type col_series m \<noteq> [] \<and>
         (\<forall>m'. m' (dtype col_series) = None \<longrightarrow>
            infer_sql_type col_series m' = dict_get m' ''object'' ''VARCHAR(255)'') \<and>
         (\<forall>m'. m' (dtype col_series) = None \<and> m' ''object'' = None \<longrightarrow>
            infer_sql_type col_series m' = ''VARCHAR(255)'')"
proof -
  obtain ot where ot: "m ''object'' = Some ot" "ot \<noteq> []"
    using dialect_object_entry [OF assms(1)] by blast
  have a: "infer_sql_type col_series m =
           (case m (dtype col_series) of
              Some t \<Rightarrow> t
            | None \<Rightarrow> dict_get m ''object'' ''VARCHAR(255)'')"
  proof (cases "m (dtype col_series)")
    case None
    then show ?thesis using assms(2) by (simp add: infer_sql_type_def)
  next
    case (Some t)
    then have "t \<noteq> []" using dialect_entries_nonempty [OF assms(1)] by blast
    with Some show ?thesis using assms(2) by (simp add: infer_sql_type_def)
  qed
  have b: "m (dtype col_series) = None \<longrightarrow>
            m ''object'' = Some (infer_sql_type col_series m)"
    using a ot by (simp add: dict_get_def)
  have c: "infer_sql_type col_series m \<noteq> []"
  proof (cases "m (dtype col_series)")
    case None
    then show ?thesis using a ot by (simp add: dict_get_def)
  next
    case (Some t)
    then have "t \<noteq> []" using dialect_entries_nonempty [OF assms(1)] by blast
    with Some a show ?thesis by simp
  qed
  have e: "\<forall>m'. m' (dtype col_series) = None \<longrightarrow>
            infer_sql_type col_series m' = dict_get m' ''object'' ''VARCHAR(255)''"
    using assms(2) by (simp add: infer_sql_type_def)
  have f: "\<forall>m'. m' (dtype col_series) = None \<and> m' ''object'' = None \<longrightarrow>
            infer_sql_type col_series m' = ''VARCHAR(255)''"
    using e by (simp add: dict_get_def)
  from a b c e f show ?thesis by blast
qed

theorem infer_sql_type_total_on_dialects_witness:
  "SQL_TYPE_MAPPING ''postgres'' = Some postgres_types \<and>
   \<not> isnull_any \<lparr>dtype = ''int64'', vals = [IntV 7, IntV (-3)]\<rparr> \<and>
   infer_sql_type \<lparr>dtype = ''int64'', vals = [IntV 7, IntV (-3)]\<rparr> postgres_types = ''BIGINT'' \<and>
   \<not> isnull_any \<lparr>dtype = ''category'', vals = [StrV ''a'']\<rparr> \<and>
   infer_sql_type \<lparr>dtype = ''category'', vals = [StrV ''a'']\<rparr> postgres_types = ''TEXT''"
proof -
  have d: "SQL_TYPE_MAPPING ''postgres'' = Some postgres_types"
    by (simp add: SQL_TYPE_MAPPING_def)
  have n1: "\<not> isnull_any \<lparr>dtype = ''int64'', vals = [IntV 7, IntV (-3)]\<rparr>"
    by (simp add: isnull_any_def)
  have n2: "\<not> isnull_any \<lparr>dtype = ''category'', vals = [StrV ''a'']\<rparr>"
    by (simp add: isnull_any_def)
  have k1: "postgres_types ''int64'' = Some ''BIGINT''"
    by (simp add: postgres_types_def)
  have k2: "postgres_types ''category'' = None"
    by (simp add: postgres_types_def)
  have k3: "postgres_types ''object'' = Some ''TEXT''"
    by (simp add: postgres_types_def)
  have r1: "infer_sql_type \<lparr>dtype = ''int64'', vals = [IntV 7, IntV (-3)]\<rparr> postgres_types
      = ''BIGINT''"
    using infer_sql_type_total_on_dialects [OF d n1, THEN conjunct1] k1 by simp
  have r2: "infer_sql_type \<lparr>dtype = ''category'', vals = [StrV ''a'']\<rparr> postgres_types
      = ''TEXT''"
    using infer_sql_type_total_on_dialects [OF d n2, THEN conjunct1] k2 k3
    by (simp add: dict_get_def)
  from d n1 r1 n2 r2 show ?thesis by blast
qed

section \<open>Properties of input resolution\<close>

text \<open>
  Claim C7. When \<^verbatim>\<open>base.zip\<close> and \<^verbatim>\<open>base.xlsx\<close> are both regular files,
  \<^verbatim>\<open>find_input_file\<close> returns the zip path if the zip's modification time is strictly
  greater and the xlsx path if the xlsx's is strictly greater; when exactly one of the
  two is a regular file it returns that one; when neither is, it raises
  \<^verbatim>\<open>FileNotFoundError\<close>.
\<close>

theorem find_input_file_newest:
  "(fs (b @ ''.zip'') = Some (File zt) \<and> fs (b @ ''.xlsx'') = Some (File xt) \<and> xt < zt \<longrightarrow>
      find_input_file fs b = Inr (b @ ''.zip'')) \<and>
   (fs (b @ ''.zip'') = Some (File zt) \<and> fs (b @ ''.xlsx'') = Some (File xt) \<and> zt < xt \<longrightarrow>
      find_input_file fs b = Inr (b @ ''.xlsx'')) \<and>
   (isfile fs (b @ ''.zip'') \<and> \<not> isfile fs (b @ ''.xlsx'') \<longrightarrow>
      find_input_file fs b = Inr (b @ ''.zip'')) \<and>
   (\<not> isfile fs (b @ ''.zip'') \<and> isfile fs (b @ ''.xlsx'') \<longrightarrow>
      find_input_file fs b = Inr (b @ ''.xlsx'')) \<and>
   (\<not> isfile fs (b @ ''.zip'') \<and> \<not> isfile fs (b @ ''.xlsx'') \<longrightarrow>
      find_input_file fs b = Inl FileNotFoundError)"
  by (auto simp add: find_input_file_def isfile_def getmtime_def Let_def)

theorem find_input_file_newest_witness:
  "find_input_file [''data.zip'' \<mapsto> File (20::int), ''data.xlsx'' \<mapsto> File 10] ''data''
     = Inr ''data.zip'' \<and>
   find_input_file [''data.zip'' \<mapsto> File (10::int), ''data.xlsx'' \<mapsto> File 20] ''data''
     = Inr ''data.xlsx'' \<and>
   find_input_file [''data.zip'' \<mapsto> File (10::int), ''data.xlsx'' \<mapsto> Dir 20] ''data''
     = Inr ''data.zip'' \<and>
   find_input_file [''data.xlsx'' \<mapsto> File (10::int)] ''data'' = Inr ''data.xlsx'' \<and>
   find_input_file (Map.empty :: int filesystem) ''data'' = Inl FileNotFoundError"
  using
    find_input_file_newest
      [of "[''data.zip'' \<mapsto> File (20::int), ''data.xlsx'' \<mapsto> File 10]" "''data''" 20 10]
    find_input_file_newest
      [of "[''data.zip'' \<mapsto> File (10::int), ''data.xlsx'' \<mapsto> File 20]" "''data''" 10 20]
    find_input_file_newest
      [of "[''data.zip'' \<mapsto> File (10::int), ''data.xlsx'' \<mapsto> Dir 20]" "''data''"]
    find_input_file_newest [of "[''data.xlsx'' \<mapsto> File (10::int)]" "''data''"]
    find_input_file_newest [of "Map.empty :: int filesystem" "''data''"]
  by (simp add: isfile_def)

text \<open>
  Claim C10. When \<^verbatim>\<open>base.zip\<close> and \<^verbatim>\<open>base.xlsx\<close> are both regular files with equal
  modification times, \<^verbatim>\<open>find_input_file\<close> returns the xlsx path: the comparison
  \<^verbatim>\<open>zip_mtime > xlsx_mtime\<close> is strict.
\<close>

theorem find_input_file_tie_is_xlsx:
  assumes "fs (b @ ''.zip'') = Some (File t)" and "fs (b @ ''.xlsx'') = Some (File t)"
  shows "find_input_file fs b = Inr (b @ ''.xlsx'')"
  using assms by (simp add: find_input_file_def isfile_def getmtime_def Let_def)

theorem find_input_file_tie_is_xlsx_witness:
  "find_input_file [''in.zip'' \<mapsto> File (5::int), ''in.xlsx'' \<mapsto> File 5] ''in'' = Inr ''in.xlsx''"
  using find_input_file_tie_is_xlsx
    [of "[''in.zip'' \<mapsto> File (5::int), ''in.xlsx'' \<mapsto> File 5]" "''in''" 5]
  by simp

section \<open>Properties of job polling\<close>

lemma poll_skip_waiting:
  assumes "\<forall>st \<in> set pre. keeps_polling st"
  shows "check_job_status pi (map Status pre @ rs) slept =
         check_job_status pi rs (slept @ replicate (length pre) pi)"
  using assms
proof (induction pre arbitrary: slept)
  case Nil
  then show ?case by simp
next
  case (Cons st pre)
  have w: "keeps_polling st" and rest: "\<forall>x \<in> set pre. keeps_polling x"
    using Cons.prems by simp_all
  have step: "check_job_status pi (Status st # map Status pre @ rs) slept =
              check_job_status pi (map Status pre @ rs) (slept @ [pi])"
    using w by (cases st) (simp_all add: keeps_polling_def)
  show ?case using step Cons.IH [OF rest, of "slept @ [pi]"] by simp
qed

lemma poll_all_waiting:
  assumes "\<forall>st \<in> set sts. keeps_polling st"
  shows "check_job_status pi (map Status sts) slept = (None, slept @ replicate (length sts) pi)"
  using poll_skip_waiting [OF assms, of pi "[]" slept] by simp

lemma poll_completed:
  assumes "\<forall>st \<in> set pre. keeps_polling st"
  shows "check_job_status pi (map Status (pre @ Some ''COMPLETED'' # rest)) slept =
         (Some (Inr ()), slept @ replicate (length pre) pi)"
  using poll_skip_waiting [OF assms, of pi "Status (Some ''COMPLETED'') # map Status rest" slept]
  by simp

lemma poll_failed:
  assumes "\<forall>st \<in> set pre. keeps_polling st" and "s \<in> {''FAILED'', ''CANCELED'', ''ERROR''}"
  shows "check_job_status pi (map Status (pre @ Some s # rest)) slept =
         (Some (Inl (Exception (''Job ended with status: '' @ s))),
          slept @ replicate (length pre) pi)"
  using poll_skip_waiting [OF assms(1), of pi "Status (Some s) # map Status rest" slept] assms(2)
  by auto

lemma poll_outcome_cases:
  "(\<forall>st \<in> set sts. keeps_polling st) \<or>
   (\<exists>pre rest. sts = pre @ Some ''COMPLETED'' # rest \<and> (\<forall>st \<in> set pre. keeps_polling st)) \<or>
   (\<exists>pre s rest. sts = pre @ Some s # rest \<and> s \<in> {''FAILED'', ''CANCELED'', ''ERROR''} \<and>
      (\<forall>st \<in> set pre. keeps_polling st))"
proof (cases "\<forall>st \<in> set sts. keeps_polling st")
  case True
  then show ?thesis by blast
next
  case False
  then have "\<exists>x \<in> set sts. \<not> keeps_polling x" by blast
  from split_list_first_prop [OF this]
  obtain pre x rest where d: "sts = pre @ x # rest" "\<not> keeps_polling x"
    "\<forall>y \<in> set pre. \<not> \<not> keeps_polling y" by blast
  from d(2) have "x = Some ''COMPLETED'' \<or> x = Some ''FAILED'' \<or> x = Some ''CANCELED'' \<or>
      x = Some ''ERROR''"
    by (simp add: keeps_polling_def)
  with d(1,3) show ?thesis by auto
qed


text \<open>
  Claim C3. On a script of polled statuses, \<^verbatim>\<open>check_job_status\<close> returns normally
  exactly when \<^verbatim>\<open>COMPLETED\<close> is the first terminal status polled, and raises exactly
  when the first terminal status polled is one of \<^verbatim>\<open>FAILED\<close>, \<^verbatim>\<open>CANCELED\<close>,
  \<^verbatim>\<open>ERROR\<close>, with an exception whose message carries that status; on every other
  status it sleeps \<^verbatim>\<open>poll_interval\<close> once and polls again, so that it has slept once
  per status polled before the terminal one. On \<^verbatim>\<open>RUNNING, RUNNING, COMPLETED\<close> it
  sleeps exactly twice and returns normally.
\<close>

theorem check_job_status_terminal_mapping:
  "(fst (check_job_status pi (map Status sts) slept) = Some (Inr ()) \<longleftrightarrow>
      (\<exists>pre rest. sts = pre @ Some ''COMPLETED'' # rest \<and> (\<forall>st \<in> set pre. keeps_polling st))) \<and>
   (fst (check_job_status pi (map Status sts) slept) = Some (Inl e) \<longleftrightarrow>
      (\<exists>pre s rest. sts = pre @ Some s # rest \<and> s \<in> {''FAILED'', ''CANCELED'', ''ERROR''} \<and>
         (\<forall>st \<in> set pre. keeps_polling st) \<and>
         e = Exception (''Job ended with status: '' @ s))) \<and>
   (\<forall>pre rest. (\<forall>st \<in> set pre. keeps_polling st) \<longrightarrow>
      check_job_status pi (map Status (pre @ Some ''COMPLETED'' # rest)) slept =
        (Some (Inr ()), slept @ replicate (length pre) pi)) \<and>
   (\<forall>pre s rest. (\<forall>st \<in> set pre. keeps_polling st) \<and> s \<in> {''FAILED'', ''CANCELED'', ''ERROR''} \<longrightarrow>
      check_job_status pi (map Status (pre @ Some s # rest)) slept =
        (Some (Inl (Exception (''Job ended with status: '' @ s))),
         slept @ replicate (length pre) pi)) \<and>
   (\<forall>st rs. keeps_polling st \<longrightarrow>
      check_job_status pi (Status st # rs) slept = check_job_status pi rs (slept @ [pi])) \<and>
   check_job_status 10
     [Status (Some ''RUNNING''), Status (Some ''RUNNING''), Status (Some ''COMPLETED'')] []
     = (Some (Inr ()), [10, 10])"
proof -
  let ?r = "check_job_status pi (map Status sts) slept"
  have a: "fst ?r = Some (Inr ()) \<longleftrightarrow>
      (\<exists>pre rest. sts = pre @ Some ''COMPLETED'' # rest \<and> (\<forall>st \<in> set pre. keeps_polling st))"
  proof
    assume ok: "fst ?r = Some (Inr ())"
    from poll_outcome_cases [of sts]
    consider "\<forall>st \<in> set sts. keeps_polling st"
      | "\<exists>pre rest. sts = pre @ Some ''COMPLETED'' # rest \<and> (\<forall>st \<in> set pre. keeps_polling st)"
      | "\<exists>pre s rest. sts = pre @ Some s # rest \<and> s \<in> {''FAILED'', ''CANCELED'', ''ERROR''} \<and>
          (\<forall>st \<in> set pre. keeps_polling st)"
      by blast
    then show "\<exists>pre rest. sts = pre @ Some ''COMPLETED'' # rest \<and>
        (\<forall>st \<in> set pre. keeps_polling st)"
    proof cases
      case 1
      from poll_all_waiting [OF 1, of pi slept] ok show ?thesis by simp
    next
      case 2
      then show ?thesis .
    next
      case 3
      then obtain pre s rest where d: "sts = pre @ Some s # rest"
        "s \<in> {''FAILED'', ''CANCELED'', ''ERROR''}" "\<forall>st \<in> set pre. keeps_polling st"
        by blast
      from poll_failed [OF d(3) d(2), of pi rest slept] ok d(1) show ?thesis by simp
    qed
  next
    assume "\<exists>pre rest. sts = pre @ Some ''COMPLETED'' # rest \<and> (\<forall>st \<in> set pre. keeps_polling st)"
    then obtain pre rest where d: "sts = pre @ Some ''COMPLETED'' # rest"
      "\<forall>st \<in> set pre. keeps_polling st" by blast
    from poll_completed [OF d(2), of pi rest slept] d(1) show "fst ?r = Some (Inr ())" by simp
  qed
  have b: "fst ?r = Some (Inl e) \<longleftrightarrow>
      (\<exists>pre s rest. sts = pre @ Some s # rest \<and> s \<in> {''FAILED'', ''CANCELED'', ''ERROR''} \<and>
         (\<forall>st \<in> set pre. keeps_polling st) \<and>
         e = Exception (''Job ended with status: '' @ s))"
  proof
    assume err: "fst ?r = Some (Inl e)"
    from poll_outcome_cases [of sts]
    consider "\<forall>st \<in> set sts. keeps_polling st"
      | "\<exists>pre rest. sts = pre @ Some ''COMPLETED'' # rest \<and> (\<forall>st \<in> set pre. keeps_polling st)"
      | "\<exists>pre s rest. sts = pre @ Some s # rest \<and> s \<in> {''FAILED'', ''CANCELED'', ''ERROR''} \<and>
          (\<forall>st \<in> set pre. keeps_polling st)"
      by blast
    then show "\<exists>pre s rest. sts = pre @ Some s # rest \<and>
         s \<in> {''FAILED'', ''CANCELED'', ''ERROR''} \<and> (\<forall>st \<in> set pre. keeps_polling st) \<and>
         e = Exception (''Job ended with status: '' @ s)"
    proof cases
      case 1
      from poll_all_waiting [OF 1, of pi slept] err show ?thesis by simp
    next
      case 2
      then obtain pre rest where d: "sts = pre @ Some ''COMPLETED'' # rest"
        "\<forall>st \<in> set pre. keeps_polling st" by blast
      from poll_completed [OF d(2), of pi rest slept] err d(1) show ?thesis by simp
    next
      case 3
      then obtain pre s rest where d: "sts = pre @ Some s # rest"
        "s \<in> {''FAILED'', ''CANCELED'', ''ERROR''}" "\<forall>st \<in> set pre. keeps_polling st"
        by blast
      from poll_failed [OF d(3) d(2), of pi rest slept] err d(1)
      have "e = Exception (''Job ended with status: '' @ s)" by simp
      with d show ?thesis by blast
    qed
  next
    assume "\<exists>pre s rest. sts = pre @ Some s # rest \<and>
         s \<in> {''FAILED'', ''CANCELED'', ''ERROR''} \<and> (\<forall>st \<in> set pre. keeps_polling st) \<and>
         e = Exception (''Job ended with status: '' @ s)"
    then obtain pre s rest where d: "sts = pre @ Some s # rest"
      "s \<in> {''FAILED'', ''CANCELED'', ''ERROR''}" "\<forall>st \<in> set pre. keeps_polling st"
      "e = Exception (''Job ended with status: '' @ s)" by blast
    from poll_failed [OF d(3) d(2), of pi rest slept] d(1,4) show "fst ?r = Some (Inl e)"
      by simp
  qed
  have c: "\<forall>pre rest. (\<forall>st \<in> set pre. keeps_polling st) \<longrightarrow>
      check_job_status pi (map Status (pre @ Some ''COMPLETED'' # rest)) slept =
        (Some (Inr ()), slept @ replicate (length pre) pi)"
    using poll_completed by blast
  have d: "\<forall>pre s rest. (\<forall>st \<in> set pre. keeps_polling st) \<and>
        s \<in> {''FAILED'', ''CANCELED'', ''ERROR''} \<longrightarrow>
      check_job_status pi (map Status (pre @ Some s # rest)) slept =
        (Some (Inl (Exception (''Job ended with status: '' @ s))),
         slept @ replicate (length pre) pi)"
    using poll_failed by blast
  have f: "\<forall>st rs. keeps_polling st \<longrightarrow>
      check_job_status pi (Status st # rs) slept = check_job_status pi rs (slept @ [pi])"
  proof (intro allI impI)
    fix st rs assume "keeps_polling st"
    then show "check_job_status pi (Status st # rs) slept =
        check_job_status pi rs (slept @ [pi])"
      by (cases st) (simp_all add: keeps_polling_def)
  qed
  have g: "check_job_status 10
     [Status (Some ''RUNNING''), Status (Some ''RUNNING''), Status (Some ''COMPLETED'')] []
     = (Some (Inr ()), [10, 10])"
    by simp
  from a b c d f g show ?thesis by blast
qed

theorem check_job_status_terminal_mapping_witness:
  "keeps_polling (Some ''RUNNING'') \<and> keeps_polling None \<and>
   check_job_status 10
     (map Status [Some ''RUNNING'', None, Some ''COMPLETED'', Some ''FAILED'']) []
     = (Some (Inr ()), [10, 10]) \<and>
   check_job_status 10
     (map Status [Some ''PENDING'', Some ''CANCELED'', Some ''COMPLETED'']) []
     = (Some (Inl (Exception ''Job ended with status: CANCELED'')), [10])"
proof -
  have w: "\<forall>st \<in> set [Some ''RUNNING'', None]. keeps_polling st"
    by (simp add: keeps_polling_def)
  have w2: "\<forall>st \<in> set [Some ''PENDING'']. keeps_polling st"
    by (simp add: keeps_polling_def)
  have m: "''CANCELED'' \<in> {''FAILED'', ''CANCELED'', ''ERROR''}" by simp
  note t = check_job_status_terminal_mapping [of 10 _ "[]"]
  have r1: "check_job_status 10
     (map Status ([Some ''RUNNING'', None] @ Some ''COMPLETED'' # [Some ''FAILED''])) []
     = (Some (Inr ()), [] @ replicate (length [Some ''RUNNING'', None :: string option]) 10)"
    using t [THEN conjunct2, THEN conjunct2, THEN conjunct1] w by blast
  have r2: "check_job_status 10
     (map Status ([Some ''PENDING''] @ Some ''CANCELED'' # [Some ''COMPLETED''])) []
     = (Some (Inl (Exception (''Job ended with status: '' @ ''CANCELED''))),
        [] @ replicate (length [Some ''PENDING'']) 10)"
    using t [THEN conjunct2, THEN conjunct2, THEN conjunct2, THEN conjunct1] w2 m by blast
  have k: "keeps_polling (Some ''RUNNING'') \<and> keeps_polling None"
    by (simp add: keeps_polling_def)
  from r1 have r1': "check_job_status 10
     (map Status [Some ''RUNNING'', None, Some ''COMPLETED'', Some ''FAILED'']) []
     = (Some (Inr ()), [10, 10])"
    by (simp add: numeral_2_eq_2)
  from r2 have r2': "check_job_status 10
     (map Status [Some ''PENDING'', Some ''CANCELED'', Some ''COMPLETED'']) []
     = (Some (Inl (Exception ''Job ended with status: CANCELED'')), [10])"
    by simp
  from k r1' r2' show ?thesis by blast
qed

section \<open>Properties of authentication\<close>

text \<open>
  Claim C4, as the code has it. For a login response with a successful transport
  status, \<^verbatim>\<open>login\<close> raises its login exception exactly when at least one of
  \<^verbatim>\<open>sessionId\<close> and \<^verbatim>\<open>currentOrgId\<close> is lacking, where a field is lacking when it is
  absent or false in Python's sense (\<^verbatim>\<open>null\<close>, empty string, zero, ...); it raises
  nothing else, and when it does not raise it returns the two values of the response.
\<close>

theorem login_fails_iff_either_missing:
  assumes "ok response"
  shows "(login response = Inl LoginException \<longleftrightarrow>
            \<not> truthy (json_data response ''sessionId'') \<or>
            \<not> truthy (json_data response ''currentOrgId'')) \<and>
         (json_data response ''sessionId'' = None \<or> json_data response ''currentOrgId'' = None
            \<longrightarrow> login response = Inl LoginException) \<and>
         (\<forall>e. login response = Inl e \<longrightarrow> e = LoginException) \<and>
         (\<forall>s g. login response = Inr (s, g) \<longleftrightarrow>
            json_data response ''sessionId'' = Some s \<and>
            json_data response ''currentOrgId'' = Some g \<and>
            truthy (Some s) \<and> truthy (Some g))"
proof -
  let ?s = "json_data response ''sessionId''" and ?g = "json_data response ''currentOrgId''"
  have a: "login response = Inl LoginException \<longleftrightarrow> \<not> truthy ?s \<or> \<not> truthy ?g"
    using assms by (cases ?s; cases ?g) (auto simp: login_def Let_def)
  have b: "?s = None \<or> ?g = None \<longrightarrow> login response = Inl LoginException"
    using a by auto
  have c: "\<forall>e. login response = Inl e \<longrightarrow> e = LoginException"
    using assms by (cases ?s; cases ?g) (auto simp: login_def Let_def split: if_splits)
  have d: "\<forall>s g. login response = Inr (s, g) \<longleftrightarrow>
            ?s = Some s \<and> ?g = Some g \<and> truthy (Some s) \<and> truthy (Some g)"
    using assms by (cases ?s; cases ?g) (auto simp: login_def Let_def split: if_splits)
  from a b c d show ?thesis by blast
qed

theorem login_fails_iff_either_missing_witness:
  "ok \<lparr>ok = True, headers = Map.empty,
       json_data = [''sessionId'' \<mapsto> JStr ''S1'', ''currentOrgId'' \<mapsto> JStr ''org9''],
       chunks = []\<rparr> \<and>
   login \<lparr>ok = True, headers = Map.empty,
       json_data = [''sessionId'' \<mapsto> JStr ''S1'', ''currentOrgId'' \<mapsto> JStr ''org9''],
       chunks = []\<rparr> = Inr (JStr ''S1'', JStr ''org9'') \<and>
   login \<lparr>ok = True, headers = Map.empty,
       json_data = [''sessionId'' \<mapsto> JStr '''', ''currentOrgId'' \<mapsto> JStr ''org9''],
       chunks = []\<rparr> = Inl LoginException"
proof -
  let ?r = "\<lparr>ok = True, headers = Map.empty,
       json_data = [''sessionId'' \<mapsto> JStr ''S1'', ''currentOrgId'' \<mapsto> JStr ''org9''],
       chunks = []\<rparr>"
  let ?q = "\<lparr>ok = True, headers = Map.empty,
       json_data = [''sessionId'' \<mapsto> JStr '''', ''currentOrgId'' \<mapsto> JStr ''org9''],
       chunks = []\<rparr>"
  have o: "ok ?r" and o2: "ok ?q" by simp_all
  have s: "json_data ?r ''sessionId'' = Some (JStr ''S1'')"
    and g: "json_data ?r ''currentOrgId'' = Some (JStr ''org9'')"
    by simp_all
  have t: "truthy (Some (JStr ''S1''))" "truthy (Some (JStr ''org9''))" by simp_all
  have n: "\<not> truthy (json_data ?q ''sessionId'')" by simp
  have r1: "login ?r = Inr (JStr ''S1'', JStr ''org9'')"
    using login_fails_iff_either_missing [OF o, THEN conjunct2, THEN conjunct2, THEN conjunct2]
      s g t by blast
  have r2: "login ?q = Inl LoginException"
    using login_fails_iff_either_missing [OF o2, THEN conjunct1] n by blast
  from o r1 r2 show ?thesis by blast
qed

text \<open>
  The claim as worded: failure if and only if \<^emph>\<open>both\<close> fields are lacking. A response
  that carries \<^verbatim>\<open>sessionId\<close> and no \<^verbatim>\<open>currentOrgId\<close> does not lack both, and
  \<^verbatim>\<open>login\<close> raises on it.
\<close>

theorem login_lacks_both_counterexample:
  "ok \<lparr>ok = True, headers = Map.empty, json_data = [''sessionId'' \<mapsto> JStr ''S1''],
       chunks = []\<rparr> \<and>
   login \<lparr>ok = True, headers = Map.empty, json_data = [''sessionId'' \<mapsto> JStr ''S1''],
       chunks = []\<rparr> = Inl LoginException \<and>
   \<not> (json_data \<lparr>ok = True, headers = Map.empty, json_data = [''sessionId'' \<mapsto> JStr ''S1''],
         chunks = []\<rparr> ''sessionId'' = None \<and>
       json_data \<lparr>ok = True, headers = Map.empty, json_data = [''sessionId'' \<mapsto> JStr ''S1''],
         chunks = []\<rparr> ''currentOrgId'' = None)"
  by (simp add: login_def)

section \<open>Properties of the download file name\<close>










section \<open>Properties of table provisioning\<close>

lemma replace_space_underscore:
  "replace '' '' ''_'' s = map (\<lambda>c. if c = CHR '' '' then CHR ''_'' else c) s"
  by (induction s) auto

lemma strip_core:
  assumes "\<forall>c \<in> set lead. isspace c" and "\<forall>c \<in> set trail. isspace c"
    and "core = [] \<or> (\<not> isspace (hd core) \<and> \<not> isspace (last core))"
  shows "strip (lead @ core @ trail) = core"
proof (cases "core = []")
  case True
  have d: "dropWhile isspace (lead @ trail) = []"
    using assms(1,2) by auto
  have "strip (lead @ core @ trail) =
      rev (dropWhile isspace (rev (dropWhile isspace (lead @ trail))))"
    by (simp only: strip_def True append_Nil)
  also have "\<dots> = []" by (simp only: d rev.simps dropWhile.simps)
  finally show ?thesis using True by simp
next
  case False
  with assms(3) have h: "\<not> isspace (hd core)" and l: "\<not> isspace (last core)" by simp_all
  have 1: "dropWhile isspace (lead @ core @ trail) = core @ trail"
  proof -
    have "dropWhile isspace (lead @ core @ trail) = dropWhile isspace (core @ trail)"
      by (rule dropWhile_append2) (use assms(1) in auto)
    also have "\<dots> = core @ trail"
      using False h by (cases core) simp_all
    finally show ?thesis .
  qed
  have 2: "dropWhile isspace (rev trail @ rev core) = rev core"
  proof -
    have "dropWhile isspace (rev trail @ rev core) = dropWhile isspace (rev core)"
      by (rule dropWhile_append2) (use assms(2) in auto)
    also have "\<dots> = rev core"
      using False l by (cases "rev core") (simp_all add: last_rev [symmetric] hd_rev)
    finally show ?thesis .
  qed
  show ?thesis by (simp add: strip_def 1 2)
qed

lemma dialect_names:
  assumes "SQL_TYPE_MAPPING d = Some m"
  shows "d \<in> set [''sqlserver'', ''oracle'', ''snowflake'', ''databricks'', ''mysql'', ''postgres'']"
proof -
  have "(d, m) \<in> set [(''sqlserver'', sqlserver_types), (''oracle'', oracle_types),
      (''snowflake'', snowflake_types), (''databricks'', databricks_types),
      (''mysql'', mysql_types), (''postgres'', postgres_types)]"
    using assms unfolding SQL_TYPE_MAPPING_def by (rule map_of_SomeD)
  then show ?thesis by auto
qed

lemma table_exists_reply_only:
  assumes "table_exists h t r = Inr found"
  shows "found = r"
  using assms by (auto simp: table_exists_def split: if_splits option.splits)

lemma table_exists_ok:
  assumes "SQL_TYPE_MAPPING (db_type h) = Some m"
    and "db_type h \<in> {''oracle'', ''snowflake''} \<longrightarrow> schema h \<noteq> None"
  shows "table_exists h t r = Inr r"
  using dialect_names [OF assms(1)] assms(2)
  by (auto simp: table_exists_def)

text \<open>What one sheet does to the state, branch by branch.\<close>

lemma process_sheet_cases:
  assumes "process_sheet h sh st = Inr st'" and "t = table_name_of (sheet_name sh)"
  shows
    "(table_exists_reply sh \<and> drop_table h \<and> t \<notin> processed_tables st \<and>
        processed_tables st' = insert t (processed_tables st) \<and>
        executed st' = executed st @ [DropTable t, CreateTable t, InsertInto t]) \<or>
     (table_exists_reply sh \<and> drop_table h \<and> t \<in> processed_tables st \<and>
        processed_tables st' = processed_tables st \<and>
        executed st' = executed st @ [InsertInto t]) \<or>
     (table_exists_reply sh \<and> \<not> drop_table h \<and> truncate_table h \<and> t \<notin> processed_tables st \<and>
        processed_tables st' = insert t (processed_tables st) \<and>
        executed st' = executed st @ [TruncateTable t, InsertInto t]) \<or>
     (table_exists_reply sh \<and> \<not> drop_table h \<and> (\<not> truncate_table h \<or> t \<in> processed_tables st) \<and>
        processed_tables st' = processed_tables st \<and>
        executed st' = executed st @ [InsertInto t]) \<or>
     (\<not> table_exists_reply sh \<and>
        processed_tables st' = insert t (processed_tables st) \<and>
        executed st' = executed st @ [CreateTable t, InsertInto t])"
proof -
  from assms(1) obtain m where m: "SQL_TYPE_MAPPING (db_type h) = Some m"
    by (auto simp: process_sheet_def split: option.splits)
  from assms(1) m obtain found where f: "table_exists h t (table_exists_reply sh) = Inr found"
    by (auto simp: process_sheet_def Let_def assms(2) split: sum.splits)
  have fr: "found = table_exists_reply sh" using table_exists_reply_only [OF f] .
  have tr: "truncate_table_if_needed h t st =
      (if drop_table h \<or> \<not> truncate_table h then Inr st
       else Inr (st\<lparr>executed := executed st @ [TruncateTable t]\<rparr>))"
    using dialect_names [OF m] by (auto simp: truncate_table_if_needed_def)
  show ?thesis
    using assms(1) m f fr
    unfolding process_sheet_def assms(2) [symmetric] Let_def
    by (auto simp: tr create_table_def drop_table_if_needed_def insert_data_def
        split: if_splits)
qed

lemma process_sheet_ok:
  assumes "SQL_TYPE_MAPPING (db_type h) = Some m"
    and "db_type h \<in> {''oracle'', ''snowflake''} \<longrightarrow> schema h \<noteq> None"
  shows "\<exists>st'. process_sheet h sh st = Inr st'"
proof -
  let ?t = "table_name_of (sheet_name sh)"
  have tr: "truncate_table_if_needed h ?t st =
      (if drop_table h \<or> \<not> truncate_table h then Inr st
       else Inr (st\<lparr>executed := executed st @ [TruncateTable ?t]\<rparr>))"
    using dialect_names [OF assms(1)] by (auto simp: truncate_table_if_needed_def)
  show ?thesis
    unfolding process_sheet_def Let_def
    by (simp add: assms(1) table_exists_ok [OF assms] tr create_table_def)
qed

lemma process_sheet_targets:
  assumes "process_sheet h sh st = Inr st'"
  shows "\<exists>new. executed st' = executed st @ new \<and> new \<noteq> [] \<and>
           (\<forall>x \<in> set new. stmt_table x = table_name_of (sheet_name sh))"
  using process_sheet_cases [OF assms refl] by auto

lemma process_sheets_append:
  "process_sheets h (a @ b) st =
     (case process_sheets h a st of
        (st', Some e) \<Rightarrow> (st', Some e)
      | (st', None) \<Rightarrow> process_sheets h b st')"
  by (induction a arbitrary: st) (auto split: sum.splits)

lemma process_files_sheets_met:
  "process_files h workbooks excel_files st =
     process_sheets h (sheets_met workbooks excel_files) st"
proof (induction excel_files arbitrary: st)
  case Nil
  then show ?case by (simp add: sheets_met_def)
next
  case (Cons p ps)
  have ih: "\<And>st. process_files h workbooks ps st =
      process_sheets h (sheets_met workbooks ps) st"
    using Cons.IH .
  show ?case
  proof (cases "workbooks p")
    case None
    then show ?thesis using ih by (simp add: sheets_met_def)
  next
    case (Some sheets)
    have "sheets_met workbooks (p # ps) = sheets @ sheets_met workbooks ps"
      using Some by (simp add: sheets_met_def)
    then show ?thesis
      using Some ih
      by (simp add: process_sheets_append split: prod.splits option.splits)
  qed
qed

lemma process_sheets_ok:
  assumes "SQL_TYPE_MAPPING (db_type h) = Some m"
    and "db_type h \<in> {''oracle'', ''snowflake''} \<longrightarrow> schema h \<noteq> None"
  shows "\<exists>st'. process_sheets h shs st = (st', None)"
proof (induction shs arbitrary: st)
  case Nil
  then show ?case by simp
next
  case (Cons s shs)
  from process_sheet_ok [OF assms] obtain st1 where "process_sheet h s st = Inr st1" by blast
  with Cons.IH [of st1] show ?case by simp
qed

lemma process_sheets_prefix:
  assumes "process_sheets h shs st = (st', e)"
  shows "prefix (executed st) (executed st')"
  using assms
proof (induction shs arbitrary: st)
  case Nil
  then show ?case by simp
next
  case (Cons s shs)
  show ?case
  proof (cases "process_sheet h s st")
    case (Inl err)
    with Cons.prems show ?thesis by simp
  next
    case (Inr st1)
    from process_sheet_targets [OF Inr] have "prefix (executed st) (executed st1)" by auto
    moreover from Cons.prems Inr have "process_sheets h shs st1 = (st', e)" by simp
    from Cons.IH [OF this] have "prefix (executed st1) (executed st')" .
    ultimately show ?thesis by (rule prefix_order.trans)
  qed
qed

lemma drop_processed:
  assumes "drop_table h" and "process_sheets h shs st = (st', None)"
  shows "processed_tables st' =
         processed_tables st \<union> (\<lambda>s. table_name_of (sheet_name s)) ` set shs"
  using assms(2)
proof (induction shs arbitrary: st)
  case Nil
  then show ?case by simp
next
  case (Cons s shs)
  from Cons.prems obtain st1 where s1: "process_sheet h s st = Inr st1"
    and rest: "process_sheets h shs st1 = (st', None)"
    by (auto split: sum.splits)
  from process_sheet_cases [OF s1 refl] assms(1)
  have "processed_tables st1 = insert (table_name_of (sheet_name s)) (processed_tables st)"
    by auto
  with Cons.IH [OF rest] show ?case by auto
qed

lemma drop_filter_processed:
  assumes "drop_table h" and "process_sheets h shs st = (st', None)"
    and "t \<in> processed_tables st"
    and "\<forall>s \<in> set shs. table_name_of (sheet_name s) = t \<longrightarrow> table_exists_reply s"
  shows "filter (\<lambda>x. stmt_table x = t) (executed st') =
         filter (\<lambda>x. stmt_table x = t) (executed st) @
         replicate (length (filter (\<lambda>s. table_name_of (sheet_name s) = t) shs)) (InsertInto t)"
  using assms(2,3,4)
proof (induction shs arbitrary: st)
  case Nil
  then show ?case by simp
next
  case (Cons s shs)
  let ?u = "table_name_of (sheet_name s)"
  from Cons.prems(1) obtain st1 where s1: "process_sheet h s st = Inr st1"
    and rest: "process_sheets h shs st1 = (st', None)"
    by (auto split: sum.splits)
  have later: "\<forall>s \<in> set shs. table_name_of (sheet_name s) = t \<longrightarrow> table_exists_reply s"
    using Cons.prems(3) by simp
  note c = process_sheet_cases [OF s1 refl]
  have p1: "t \<in> processed_tables st1" using c Cons.prems(2) by auto
  note ih = Cons.IH [OF rest p1 later]
  show ?case
  proof (cases "?u = t")
    case True
    then have "table_exists_reply s" using Cons.prems(3) by simp
    with c True assms(1) Cons.prems(2)
    have "executed st1 = executed st @ [InsertInto t]" by auto
    with ih True show ?thesis by (simp add: replicate_append_same)
  next
    case False
    from process_sheet_targets [OF s1] obtain new where
      n: "executed st1 = executed st @ new" "\<forall>x \<in> set new. stmt_table x = ?u" by blast
    have "filter (\<lambda>x. stmt_table x = t) new = []"
      using n(2) False by (auto simp: filter_empty_conv)
    with ih n(1) False show ?thesis by simp
  qed
qed

lemma drop_filter_fresh:
  assumes "drop_table h" and "process_sheets h shs st = (st', None)"
    and "t \<notin> processed_tables st"
    and "\<forall>s \<in> set shs. table_name_of (sheet_name s) = t \<longrightarrow> table_exists_reply s"
  shows "filter (\<lambda>x. stmt_table x = t) (executed st') =
         filter (\<lambda>x. stmt_table x = t) (executed st) @
         (if \<exists>s \<in> set shs. table_name_of (sheet_name s) = t
          then DropTable t # CreateTable t #
               replicate (length (filter (\<lambda>s. table_name_of (sheet_name s) = t) shs))
                 (InsertInto t)
          else [])"
  using assms(2,3,4)
proof (induction shs arbitrary: st)
  case Nil
  then show ?case by simp
next
  case (Cons s shs)
  let ?u = "table_name_of (sheet_name s)"
  from Cons.prems(1) obtain st1 where s1: "process_sheet h s st = Inr st1"
    and rest: "process_sheets h shs st1 = (st', None)"
    by (auto split: sum.splits)
  have later: "\<forall>s \<in> set shs. table_name_of (sheet_name s) = t \<longrightarrow> table_exists_reply s"
    using Cons.prems(3) by simp
  note c = process_sheet_cases [OF s1 refl]
  show ?case
  proof (cases "?u = t")
    case True
    then have "table_exists_reply s" using Cons.prems(3) by simp
    with c True assms(1) Cons.prems(2)
    have e1: "executed st1 = executed st @ [DropTable t, CreateTable t, InsertInto t]"
      and p1: "t \<in> processed_tables st1" by auto
    from drop_filter_processed [OF assms(1) rest p1 later] e1 True
    show ?thesis by (simp add: replicate_append_same)
  next
    case False
    from process_sheet_targets [OF s1] obtain new where
      n: "executed st1 = executed st @ new" "\<forall>x \<in> set new. stmt_table x = ?u" by blast
    have f: "filter (\<lambda>x. stmt_table x = t) new = []"
      using n(2) False by (auto simp: filter_empty_conv)
    have p1: "t \<notin> processed_tables st1" using c Cons.prems(2) False by auto
    from Cons.IH [OF rest p1 later] n(1) f False show ?thesis by simp
  qed
qed

text \<open>
  Claim C5, as the code has it. The target table of a sheet is the sheet name with its
  leading and trailing whitespace removed and every space character that remains
  replaced with an underscore; other whitespace inside the name is kept. Every
  statement executed for a sheet names that table, so two sheets whose names normalize
  to the same string load the same table.
\<close>

theorem table_name_strip_then_underscore:
  assumes "\<forall>c \<in> set lead. isspace c" and "\<forall>c \<in> set trail. isspace c"
    and "core = [] \<or> (\<not> isspace (hd core) \<and> \<not> isspace (last core))"
  shows "table_name_of (lead @ core @ trail) =
           map (\<lambda>c. if c = CHR '' '' then CHR ''_'' else c) core \<and>
         (\<forall>h sh st st'. process_sheet h sh st = Inr st' \<longrightarrow>
            (\<exists>new. executed st' = executed st @ new \<and> new \<noteq> [] \<and>
               (\<forall>x \<in> set new. stmt_table x = table_name_of (sheet_name sh))))"
proof -
  have a: "table_name_of (lead @ core @ trail) =
           map (\<lambda>c. if c = CHR '' '' then CHR ''_'' else c) core"
    unfolding table_name_of_def strip_core [OF assms] by (rule replace_space_underscore)
  have b: "\<forall>h sh st st'. process_sheet h sh st = Inr st' \<longrightarrow>
            (\<exists>new. executed st' = executed st @ new \<and> new \<noteq> [] \<and>
               (\<forall>x \<in> set new. stmt_table x = table_name_of (sheet_name sh)))"
    using process_sheet_targets by blast
  from a b show ?thesis by blast
qed

theorem table_name_strip_then_underscore_witness:
  "isspace (CHR '' '') \<and>
   \<not> isspace (hd ''Q1 data'') \<and> \<not> isspace (last ''Q1 data'') \<and>
   table_name_of ''  Q1 data '' = ''Q1_data''"
proof -
  have l: "\<forall>c \<in> set ''  ''. isspace c" by (simp add: isspace_def)
  have t: "\<forall>c \<in> set '' ''. isspace c" by (simp add: isspace_def)
  have c: "\<not> isspace (hd ''Q1 data'') \<and> \<not> isspace (last ''Q1 data'')"
    by (simp add: isspace_def)
  then have c': "''Q1 data'' = [] \<or> (\<not> isspace (hd ''Q1 data'') \<and> \<not> isspace (last ''Q1 data''))"
    by blast
  from table_name_strip_then_underscore [OF l t c', THEN conjunct1]
  have "table_name_of ''  Q1 data '' = ''Q1_data''" by simp
  moreover have "isspace (CHR '' '')" by (simp add: isspace_def)
  ultimately show ?thesis using c by blast
qed

text \<open>
  The claim as worded, whitespace replaced with underscores, gives another name as soon
  as the sheet name starts or ends with a space, or holds a tab.
\<close>

theorem table_name_whitespace_counterexample:
  "table_name_of '' Q1 data'' = ''Q1_data'' \<and>
   spec_normalized_name '' Q1 data'' = ''_Q1_data'' \<and>
   table_name_of '' Q1 data'' \<noteq> spec_normalized_name '' Q1 data''"
  by (simp add: table_name_of_def strip_def isspace_def spec_normalized_name_def)

text \<open>
  Claim C2. In a run with \<^verbatim>\<open>drop_table\<close> set, for a table name \<open>t\<close> that the run meets
  and that the database reports as existing at each sheet that maps to it: the run
  ends without an exception; the statements it executes for \<open>t\<close> are one
  \<^verbatim>\<open>DROP\<close>, one \<^verbatim>\<open>CREATE\<close> and then one \<^verbatim>\<open>INSERT\<close> per sheet that maps to \<open>t\<close>; and at
  each such sheet the statements executed are \<^verbatim>\<open>DROP, CREATE, INSERT\<close> when no earlier
  sheet of the run maps to \<open>t\<close>, and the \<^verbatim>\<open>INSERT\<close> alone otherwise.
\<close>

theorem drop_mode_provisions_once:
  assumes "drop_table h"
    and "SQL_TYPE_MAPPING (db_type h) = Some m"
    and "db_type h \<in> {''oracle'', ''snowflake''} \<longrightarrow> schema h \<noteq> None"
    and "\<forall>s \<in> set (sheets_met workbooks excel_files).
           table_name_of (sheet_name s) = t \<longrightarrow> table_exists_reply s"
    and "\<exists>s \<in> set (sheets_met workbooks excel_files). table_name_of (sheet_name s) = t"
  shows "\<exists>st. process_excel_files excel_files h workbooks = (st, None) \<and>
           filter (\<lambda>x. stmt_table x = t) (executed st) =
             DropTable t # CreateTable t #
             replicate
               (length (filter (\<lambda>s. table_name_of (sheet_name s) = t)
                          (sheets_met workbooks excel_files)))
               (InsertInto t) \<and>
           (\<forall>pre sh post.
              sheets_met workbooks excel_files = pre @ sh # post \<and>
              table_name_of (sheet_name sh) = t \<longrightarrow>
              (\<exists>st1 st2.
                 process_sheets h pre \<lparr>processed_tables = {}, executed = []\<rparr> = (st1, None) \<and>
                 process_sheet h sh st1 = Inr st2 \<and>
                 executed st2 = executed st1 @
                   (if \<exists>p \<in> set pre. table_name_of (sheet_name p) = t
                    then [InsertInto t]
                    else [DropTable t, CreateTable t, InsertInto t]) \<and>
                 prefix (executed st2) (executed st)))"
proof -
  let ?st0 = "\<lparr>processed_tables = {}, executed = []\<rparr>"
  let ?all = "sheets_met workbooks excel_files"
  have run: "process_excel_files excel_files h workbooks = process_sheets h ?all ?st0"
    by (simp add: process_excel_files_def process_files_sheets_met)
  from process_sheets_ok [OF assms(2,3)] obtain st where st: "process_sheets h ?all ?st0 = (st, None)"
    by blast
  have fresh: "t \<notin> processed_tables ?st0" by simp
  have total: "filter (\<lambda>x. stmt_table x = t) (executed st) =
             DropTable t # CreateTable t #
             replicate (length (filter (\<lambda>s. table_name_of (sheet_name s) = t) ?all))
               (InsertInto t)"
    using drop_filter_fresh [OF assms(1) st fresh assms(4)] assms(5) by simp
  have each: "\<exists>st1 st2.
                 process_sheets h pre ?st0 = (st1, None) \<and>
                 process_sheet h sh st1 = Inr st2 \<and>
                 executed st2 = executed st1 @
                   (if \<exists>p \<in> set pre. table_name_of (sheet_name p) = t
                    then [InsertInto t]
                    else [DropTable t, CreateTable t, InsertInto t]) \<and>
                 prefix (executed st2) (executed st)"
    if split: "?all = pre @ sh # post" and name: "table_name_of (sheet_name sh) = t"
    for pre sh post
  proof -
    from process_sheets_ok [OF assms(2,3)] obtain st1 where
      s1: "process_sheets h pre ?st0 = (st1, None)" by blast
    from process_sheet_ok [OF assms(2,3)] obtain st2 where
      s2: "process_sheet h sh st1 = Inr st2" by blast
    have "process_sheets h (pre @ sh # post) ?st0 = process_sheets h post st2"
      using s1 s2 by (simp add: process_sheets_append)
    with st split have s3: "process_sheets h post st2 = (st, None)" by simp
    have p: "prefix (executed st2) (executed st)"
      using process_sheets_prefix [OF s3] .
    have pr: "processed_tables st1 = (\<lambda>s. table_name_of (sheet_name s)) ` set pre"
      using drop_processed [OF assms(1) s1] by simp
    have r: "table_exists_reply sh" using assms(4) split name by simp
    have e: "executed st2 = executed st1 @
                   (if \<exists>p \<in> set pre. table_name_of (sheet_name p) = t
                    then [InsertInto t]
                    else [DropTable t, CreateTable t, InsertInto t])"
    proof (cases "\<exists>p \<in> set pre. table_name_of (sheet_name p) = t")
      case True
      then have "t \<in> processed_tables st1" using pr by auto
      with process_sheet_cases [OF s2 name [symmetric]] r assms(1) True
      show ?thesis by auto
    next
      case False
      then have "t \<notin> processed_tables st1" using pr by auto
      with process_sheet_cases [OF s2 name [symmetric]] r assms(1) False
      show ?thesis by auto
    qed
    from s1 s2 e p show ?thesis by blast
  qed
  show ?thesis
  proof (intro exI [of _ st] conjI)
    show "process_excel_files excel_files h workbooks = (st, None)"
      using run st by simp
    show "filter (\<lambda>x. stmt_table x = t) (executed st) =
             DropTable t # CreateTable t #
             replicate (length (filter (\<lambda>s. table_name_of (sheet_name s) = t) ?all))
               (InsertInto t)"
      by (rule total)
    show "\<forall>pre sh post.
              ?all = pre @ sh # post \<and> table_name_of (sheet_name sh) = t \<longrightarrow>
              (\<exists>st1 st2.
                 process_sheets h pre ?st0 = (st1, None) \<and>
                 process_sheet h sh st1 = Inr st2 \<and>
                 executed st2 = executed st1 @
                   (if \<exists>p \<in> set pre. table_name_of (sheet_name p) = t
                    then [InsertInto t]
                    else [DropTable t, CreateTable t, InsertInto t]) \<and>
                 prefix (executed st2) (executed st))"
      by (intro allI impI, elim conjE) (rule each)
  qed
qed


theorem drop_mode_provisions_once_witness:
  "drop_table \<lparr>db_type = ''postgres'', schema = Some ''public'', truncate_table = False,
                drop_table = True, debug = False\<rparr> \<and>
   SQL_TYPE_MAPPING ''postgres'' = Some postgres_types \<and>
   sheets_met
     [''a.xlsx'' \<mapsto> [\<lparr>sheet_name = ''Data Set'', table_exists_reply = True\<rparr>,
                     \<lparr>sheet_name = ''Other'', table_exists_reply = False\<rparr>],
      ''b.xlsx'' \<mapsto> [\<lparr>sheet_name = ''Data Set '', table_exists_reply = True\<rparr>]]
     [''a.xlsx'', ''missing.xlsx'', ''b.xlsx'']
     = [\<lparr>sheet_name = ''Data Set'', table_exists_reply = True\<rparr>,
        \<lparr>sheet_name = ''Other'', table_exists_reply = False\<rparr>,
        \<lparr>sheet_name = ''Data Set '', table_exists_reply = True\<rparr>] \<and>
   (\<exists>st. process_excel_files [''a.xlsx'', ''missing.xlsx'', ''b.xlsx'']
           \<lparr>db_type = ''postgres'', schema = Some ''public'', truncate_table = False,
             drop_table = True, debug = False\<rparr>
           [''a.xlsx'' \<mapsto> [\<lparr>sheet_name = ''Data Set'', table_exists_reply = True\<rparr>,
                           \<lparr>sheet_name = ''Other'', table_exists_reply = False\<rparr>],
            ''b.xlsx'' \<mapsto> [\<lparr>sheet_name = ''Data Set '', table_exists_reply = True\<rparr>]]
         = (st, None) \<and>
         filter (\<lambda>x. stmt_table x = ''Data_Set'') (executed st) =
           [DropTable ''Data_Set'', CreateTable ''Data_Set'', InsertInto ''Data_Set'',
            InsertInto ''Data_Set''])"
proof -
  let ?h = "\<lparr>db_type = ''postgres'', schema = Some ''public'', truncate_table = False,
              drop_table = True, debug = False\<rparr>"
  let ?w = "[''a.xlsx'' \<mapsto> [\<lparr>sheet_name = ''Data Set'', table_exists_reply = True\<rparr>,
                           \<lparr>sheet_name = ''Other'', table_exists_reply = False\<rparr>],
             ''b.xlsx'' \<mapsto> [\<lparr>sheet_name = ''Data Set '', table_exists_reply = True\<rparr>]]"
  let ?f = "[''a.xlsx'', ''missing.xlsx'', ''b.xlsx'']"
  let ?all = "[\<lparr>sheet_name = ''Data Set'', table_exists_reply = True\<rparr>,
        \<lparr>sheet_name = ''Other'', table_exists_reply = False\<rparr>,
        \<lparr>sheet_name = ''Data Set '', table_exists_reply = True\<rparr>]"
  have d: "drop_table ?h" by simp
  have m: "SQL_TYPE_MAPPING (db_type ?h) = Some postgres_types"
    by (simp add: SQL_TYPE_MAPPING_def)
  have s: "db_type ?h \<in> {''oracle'', ''snowflake''} \<longrightarrow> schema ?h \<noteq> None" by simp
  have met: "sheets_met ?w ?f = ?all" by (simp add: sheets_met_def)
  have n1: "table_name_of ''Data Set'' = ''Data_Set''"
    by (simp add: table_name_of_def strip_def isspace_def)
  have n2: "table_name_of ''Other'' = ''Other''"
    by (simp add: table_name_of_def strip_def isspace_def)
  have n3: "table_name_of ''Data Set '' = ''Data_Set''"
    by (simp add: table_name_of_def strip_def isspace_def)
  have r: "\<forall>s \<in> set (sheets_met ?w ?f).
      table_name_of (sheet_name s) = ''Data_Set'' \<longrightarrow> table_exists_reply s"
    unfolding met by (simp add: n2)
  have e: "\<exists>s \<in> set (sheets_met ?w ?f). table_name_of (sheet_name s) = ''Data_Set''"
    unfolding met by (simp add: n1)
  have c: "length (filter (\<lambda>s. table_name_of (sheet_name s) = ''Data_Set'') (sheets_met ?w ?f))
      = 2"
    unfolding met by (simp add: n1 n2 n3)
  from drop_mode_provisions_once [OF d m s r e] obtain st where
    st: "process_excel_files ?f ?h ?w = (st, None)"
    "filter (\<lambda>x. stmt_table x = ''Data_Set'') (executed st) =
       DropTable ''Data_Set'' # CreateTable ''Data_Set'' #
       replicate (length (filter (\<lambda>s. table_name_of (sheet_name s) = ''Data_Set'')
                            (sheets_met ?w ?f))) (InsertInto ''Data_Set'')"
    by blast
  from st(2) have "filter (\<lambda>x. stmt_table x = ''Data_Set'') (executed st) =
       [DropTable ''Data_Set'', CreateTable ''Data_Set'', InsertInto ''Data_Set'',
        InsertInto ''Data_Set'']"
    unfolding c by (simp add: numeral_2_eq_2)
  with st(1) have x: "\<exists>st. process_excel_files ?f ?h ?w = (st, None) \<and>
      filter (\<lambda>x. stmt_table x = ''Data_Set'') (executed st) =
       [DropTable ''Data_Set'', CreateTable ''Data_Set'', InsertInto ''Data_Set'',
        InsertInto ''Data_Set'']"
    by blast
  have m': "SQL_TYPE_MAPPING ''postgres'' = Some postgres_types"
    by (simp add: SQL_TYPE_MAPPING_def)
  from d m' met x show ?thesis by blast
qed

lemma drop_never_truncates:
  assumes "drop_table h" and "process_sheets h shs st = (st', err)"
    and "TruncateTable t \<in> set (executed st')"
  shows "TruncateTable t \<in> set (executed st)"
  using assms(2,3)
proof (induction shs arbitrary: st)
  case Nil
  then show ?case by simp
next
  case (Cons s shs)
  show ?case
  proof (cases "process_sheet h s st")
    case (Inl e)
    with Cons.prems show ?thesis by simp
  next
    case (Inr st1)
    with Cons.prems have "process_sheets h shs st1 = (st', err)" by simp
    from Cons.IH [OF this Cons.prems(2)] have "TruncateTable t \<in> set (executed st1)" .
    with process_sheet_cases [OF Inr refl] assms(1) show ?thesis by auto
  qed
qed

text \<open>
  Claim C9. With \<^verbatim>\<open>drop_table\<close> and \<^verbatim>\<open>truncate_table\<close> both set,
  \<^verbatim>\<open>truncate_table_if_needed\<close> returns without executing anything, no run ever
  executes a \<^verbatim>\<open>TRUNCATE\<close>, whether it ends normally or with an exception, and a sheet
  whose table exists and has not been processed in the run gets \<^verbatim>\<open>DROP\<close>, \<^verbatim>\<open>CREATE\<close>
  and \<^verbatim>\<open>INSERT\<close>: the drop branch is taken before the truncate flag is looked at.
\<close>

theorem drop_takes_priority_over_truncate:
  assumes "drop_table h" and "truncate_table h"
  shows "truncate_table_if_needed h t st = Inr st \<and>
         (\<forall>excel_files workbooks st' err t'.
            process_excel_files excel_files h workbooks = (st', err) \<longrightarrow>
            TruncateTable t' \<notin> set (executed st')) \<and>
         (\<forall>sh st1 st2.
            process_sheet h sh st1 = Inr st2 \<and> table_exists_reply sh \<and>
            table_name_of (sheet_name sh) \<notin> processed_tables st1 \<longrightarrow>
            executed st2 = executed st1 @
              [DropTable (table_name_of (sheet_name sh)),
               CreateTable (table_name_of (sheet_name sh)),
               InsertInto (table_name_of (sheet_name sh))]) \<and>
         (\<forall>sh st1 m.
            SQL_TYPE_MAPPING (db_type h) = Some m \<and>
            (db_type h \<in> {''oracle'', ''snowflake''} \<longrightarrow> schema h \<noteq> None) \<longrightarrow>
            (\<exists>st2. process_sheet h sh st1 = Inr st2))"
proof -
  have a: "truncate_table_if_needed h t st = Inr st"
    using assms(1) by (simp add: truncate_table_if_needed_def)
  have b: "\<forall>excel_files workbooks st' err t'.
            process_excel_files excel_files h workbooks = (st', err) \<longrightarrow>
            TruncateTable t' \<notin> set (executed st')"
  proof (intro allI impI)
    fix excel_files workbooks st' err t'
    assume "process_excel_files excel_files h workbooks = (st', err)"
    then have r: "process_sheets h (sheets_met workbooks excel_files)
        \<lparr>processed_tables = {}, executed = []\<rparr> = (st', err)"
      by (simp add: process_excel_files_def process_files_sheets_met)
    show "TruncateTable t' \<notin> set (executed st')"
    proof
      assume "TruncateTable t' \<in> set (executed st')"
      from drop_never_truncates [OF assms(1) r this] show False by simp
    qed
  qed
  have c: "\<forall>sh st1 st2.
            process_sheet h sh st1 = Inr st2 \<and> table_exists_reply sh \<and>
            table_name_of (sheet_name sh) \<notin> processed_tables st1 \<longrightarrow>
            executed st2 = executed st1 @
              [DropTable (table_name_of (sheet_name sh)),
               CreateTable (table_name_of (sheet_name sh)),
               InsertInto (table_name_of (sheet_name sh))]"
  proof (intro allI impI, elim conjE)
    fix sh st1 st2
    assume p: "process_sheet h sh st1 = Inr st2" and r: "table_exists_reply sh"
      and n: "table_name_of (sheet_name sh) \<notin> processed_tables st1"
    from process_sheet_cases [OF p refl] r n assms(1)
    show "executed st2 = executed st1 @
              [DropTable (table_name_of (sheet_name sh)),
               CreateTable (table_name_of (sheet_name sh)),
               InsertInto (table_name_of (sheet_name sh))]"
      by auto
  qed
  have d: "\<forall>sh st1 m.
            SQL_TYPE_MAPPING (db_type h) = Some m \<and>
            (db_type h \<in> {''oracle'', ''snowflake''} \<longrightarrow> schema h \<noteq> None) \<longrightarrow>
            (\<exists>st2. process_sheet h sh st1 = Inr st2)"
    using process_sheet_ok by blast
  from a b c d show ?thesis by blast
qed

theorem drop_takes_priority_over_truncate_witness:
  "drop_table \<lparr>db_type = ''mysql'', schema = None, truncate_table = True,
                drop_table = True, debug = False\<rparr> \<and>
   truncate_table \<lparr>db_type = ''mysql'', schema = None, truncate_table = True,
                drop_table = True, debug = False\<rparr> \<and>
   truncate_table_if_needed
     \<lparr>db_type = ''mysql'', schema = None, truncate_table = True,
       drop_table = True, debug = False\<rparr> ''Sales''
     \<lparr>processed_tables = {}, executed = []\<rparr> = Inr \<lparr>processed_tables = {}, executed = []\<rparr> \<and>
   process_excel_files [''in.xlsx'']
     \<lparr>db_type = ''mysql'', schema = None, truncate_table = True,
       drop_table = True, debug = False\<rparr>
     [''in.xlsx'' \<mapsto> [\<lparr>sheet_name = ''Sales'', table_exists_reply = True\<rparr>]]
     = (\<lparr>processed_tables = {''Sales''},
         executed = [DropTable ''Sales'', CreateTable ''Sales'', InsertInto ''Sales'']\<rparr>, None) \<and>
   TruncateTable ''Sales'' \<notin> set [DropTable ''Sales'', CreateTable ''Sales'', InsertInto ''Sales'']"
proof -
  let ?h = "\<lparr>db_type = ''mysql'', schema = None, truncate_table = True,
              drop_table = True, debug = False\<rparr>"
  let ?st0 = "\<lparr>processed_tables = {}, executed = []\<rparr>"
  let ?w = "[''in.xlsx'' \<mapsto> [\<lparr>sheet_name = ''Sales'', table_exists_reply = True\<rparr>]]"
  let ?fin = "\<lparr>processed_tables = {''Sales''},
         executed = [DropTable ''Sales'', CreateTable ''Sales'', InsertInto ''Sales'']\<rparr>"
  have d: "drop_table ?h" and t: "truncate_table ?h" by simp_all
  note inst = drop_takes_priority_over_truncate [OF d t, of "''Sales''" ?st0]
  have a: "truncate_table_if_needed ?h ''Sales'' ?st0 = Inr ?st0"
    using inst by blast
  have n: "table_name_of ''Sales'' = ''Sales''"
    by (simp add: table_name_of_def strip_def isspace_def)
  have run: "process_excel_files [''in.xlsx''] ?h ?w = (?fin, None)"
    by (simp add: process_excel_files_def process_sheet_def n SQL_TYPE_MAPPING_def Let_def
        table_exists_def create_table_def drop_table_if_needed_def insert_data_def)
  have "TruncateTable ''Sales'' \<notin> set (executed ?fin)"
    using inst run by blast
  then have x: "TruncateTable ''Sales'' \<notin>
      set [DropTable ''Sales'', CreateTable ''Sales'', InsertInto ''Sales'']"
    by simp
  from d t a run x show ?thesis by blast
qed

end
